theory Spec2Isabelle
  imports Complex_Main "HOL-Library.Word" "HOL-Library.Signed_Division"
begin

section \<open>Constants (namespace Constants of main.cpp)\<close>

definition CRSF_SEND_PERIOD_MS :: "32 word" where
  "CRSF_SEND_PERIOD_MS = 10"

definition TELEMETRY_UPDATE_MS :: int where
  "TELEMETRY_UPDATE_MS = 20"

definition CHANNEL_MIN :: int where
  "CHANNEL_MIN = 1000"

definition CHANNEL_MAX :: int where
  "CHANNEL_MAX = 2000"

definition CHANNEL_COUNT :: nat where
  "CHANNEL_COUNT = 16"

text \<open>\<open>JOYSTICK_SCALE_FACTOR\<close> is the float \<open>500.0f\<close>; its only use is
  \<open>static_cast<int32_t>(JOYSTICK_SCALE_FACTOR)\<close>, which is exactly 500.\<close>

definition JOYSTICK_SCALE_FACTOR :: int where
  "JOYSTICK_SCALE_FACTOR = 500"

definition JOYSTICK_DEADZONE :: int where
  "JOYSTICK_DEADZONE = 100"

definition DEFAULT_CHANNEL_VALUE :: int where
  "DEFAULT_CHANNEL_VALUE = 1500"

definition DEFAULT_THROTTLE_VALUE :: int where
  "DEFAULT_THROTTLE_VALUE = 1000"

section \<open>Machine integers\<close>

text \<open>A C \<open>int\<close> / \<open>int32_t\<close> result: the mathematical value reduced to the
  two's-complement range of 32 bits.\<close>

definition int32 :: "int \<Rightarrow> int" where
  "int32 k = signed_take_bit 31 k"

section \<open>InputMapper: axisToUs\<close>

text \<open>\<open>axisToUs(int16_t value)\<close>. The comparisons promote \<open>value\<close> to \<open>int\<close>;
  \<open>scaled\<close> is an \<open>int32_t\<close> product, \<open>/\<close> is C++ division (truncating toward
  zero, \<open>sdiv\<close>), \<open>result\<close> is an \<open>int\<close>.\<close>

definition axisToUs :: "16 word \<Rightarrow> int" where
  "axisToUs v =
     (if sint v < JOYSTICK_DEADZONE \<and> sint v > - JOYSTICK_DEADZONE then 1500
      else
        let scaled = int32 (int32 (sint v) * int32 JOYSTICK_SCALE_FACTOR);
            result = int32 (1500 + int32 (scaled sdiv 32768))
        in if result < CHANNEL_MIN then CHANNEL_MIN
           else if result > CHANNEL_MAX then CHANNEL_MAX
           else result)"


text \<open>The expression \<open>-axes[i]\<close> passed to \<open>axisToUs(int16_t)\<close>: the operand is
  promoted to \<open>int\<close>, negated there, and the result is converted back to
  \<open>int16_t\<close> (reduction modulo \<open>2^16\<close>).\<close>

definition neg_axis :: "16 word \<Rightarrow> 16 word" where
  "neg_axis a = word_of_int (- sint a)"

section \<open>ChannelStore: currentChannels and safeSetChannel\<close>

text \<open>The global array \<open>int currentChannels[16]\<close> with its static initialiser.\<close>

definition currentChannels_static :: "int list" where
  "currentChannels_static =
     [DEFAULT_CHANNEL_VALUE, DEFAULT_CHANNEL_VALUE, DEFAULT_CHANNEL_VALUE, DEFAULT_CHANNEL_VALUE,
      DEFAULT_CHANNEL_VALUE, DEFAULT_CHANNEL_VALUE, DEFAULT_CHANNEL_VALUE, DEFAULT_CHANNEL_VALUE,
      DEFAULT_CHANNEL_VALUE, DEFAULT_CHANNEL_VALUE, DEFAULT_CHANNEL_VALUE, DEFAULT_CHANNEL_VALUE,
      DEFAULT_CHANNEL_VALUE, DEFAULT_CHANNEL_VALUE, DEFAULT_CHANNEL_VALUE, DEFAULT_CHANNEL_VALUE]"

text \<open>\<open>safeSetChannel(unsigned int channel, int value)\<close>: the store is passed in
  and returned; the function returns nothing else and raises nothing.\<close>

definition safeSetChannel :: "32 word \<Rightarrow> int \<Rightarrow> int list \<Rightarrow> int list" where
  "safeSetChannel channel v cs =
     (if channel \<ge> 1 \<and> channel \<le> of_nat CHANNEL_COUNT \<and> v \<ge> CHANNEL_MIN \<and> v \<le> CHANNEL_MAX
      then cs[unat channel - 1 := v]
      else cs)"

text \<open>The joystick branch of the main loop: \<open>js_get_axis(i, axes[i])\<close> either
  fails (\<open>None\<close>) or delivers a sample; each delivered sample writes one channel, in
  the order yaw, throttle, roll, pitch.\<close>

definition joystick_step :: "(nat \<Rightarrow> 16 word option) \<Rightarrow> int list \<Rightarrow> int list" where
  "joystick_step js cs =
     (let cs1 = (case js 0 of Some a \<Rightarrow> safeSetChannel 4 (axisToUs a) cs | None \<Rightarrow> cs);
          cs2 = (case js 1 of Some a \<Rightarrow> safeSetChannel 3 (axisToUs (neg_axis a)) cs1 | None \<Rightarrow> cs1);
          cs3 = (case js 2 of Some a \<Rightarrow> safeSetChannel 1 (axisToUs a) cs2 | None \<Rightarrow> cs2);
          cs4 = (case js 3 of Some a \<Rightarrow> safeSetChannel 2 (axisToUs (neg_axis a)) cs3 | None \<Rightarrow> cs3)
      in cs4)"

section \<open>CommandProtocol: parseCommand\<close>

subsection \<open>Library functions used by the parser\<close>

text \<open>\<open>isspace\<close> and \<open>isdigit\<close> in the C locale.\<close>

definition isspace_c :: "char \<Rightarrow> bool" where
  "isspace_c c = (c = CHR '' '' \<or> (9 \<le> (of_char c :: nat) \<and> (of_char c :: nat) \<le> 13))"

definition isdigit_c :: "char \<Rightarrow> bool" where
  "isdigit_c c = (48 \<le> (of_char c :: nat) \<and> (of_char c :: nat) \<le> 57)"

definition digit_val :: "char \<Rightarrow> int" where
  "digit_val c = int (of_char c) - 48"

definition decimal :: "string \<Rightarrow> int" where
  "decimal ds = foldl (\<lambda>n c. 10 * n + digit_val c) 0 ds"

text \<open>\<open>startsWith(str, prefix)\<close> is \<open>str.compare(0, prefix.length(), prefix) == 0\<close>:
  the first \<open>prefix.length()\<close> characters of \<open>str\<close> (fewer if \<open>str\<close> is shorter)
  are compared with \<open>prefix\<close>.\<close>

definition startsWith :: "string \<Rightarrow> string \<Rightarrow> bool" where
  "startsWith str prefix = (take (length prefix) str = prefix)"

text \<open>\<open>iss >> token\<close> on the unread rest of the stream: leading whitespace is
  skipped; at the end of input the extraction fails (\<open>None\<close>); otherwise the token
  runs up to the next whitespace.\<close>

definition extract_token :: "string \<Rightarrow> (string \<times> string) option" where
  "extract_token s =
     (let s1 = dropWhile isspace_c s
      in if s1 = [] then None
         else Some (takeWhile (\<lambda>c. \<not> isspace_c c) s1, dropWhile (\<lambda>c. \<not> isspace_c c) s1))"

text \<open>\<open>token.find('=')\<close>: the position of the first \<open>=\<close>, \<open>None\<close> for \<open>npos\<close>.\<close>

definition find_char :: "char \<Rightarrow> string \<Rightarrow> nat option" where
  "find_char c s = (if c \<in> set s then Some (length (takeWhile (\<lambda>x. x \<noteq> c) s)) else None)"

text \<open>The common front end of \<open>strtol\<close> and of the \<open>scanf\<close> integer conversions
  in base 10: skip whitespace, read an optional sign and then digits. \<open>None\<close> when there
  is no digit; otherwise the signed value and the unread rest.\<close>

definition scan_int :: "string \<Rightarrow> (int \<times> string) option" where
  "scan_int s =
     (let s1 = dropWhile isspace_c s;
          neg = (s1 \<noteq> [] \<and> hd s1 = CHR ''-'');
          s2 = (if s1 \<noteq> [] \<and> (hd s1 = CHR ''-'' \<or> hd s1 = CHR ''+'') then tl s1 else s1);
          ds = takeWhile isdigit_c s2
      in if ds = [] then None
         else Some (if neg then - decimal ds else decimal ds, dropWhile isdigit_c s2))"

datatype stoi_error = invalid_argument | out_of_range

text \<open>\<open>std::stoi(str)\<close>: \<open>invalid_argument\<close> when no conversion can be performed,
  \<open>out_of_range\<close> when the value does not fit an \<open>int\<close>; trailing characters are
  ignored.\<close>

definition stoi :: "string \<Rightarrow> stoi_error + int" where
  "stoi s =
     (case scan_int s of
        None \<Rightarrow> Inl invalid_argument
      | Some (n, _) \<Rightarrow>
          if n < - 2147483648 \<or> 2147483647 < n then Inl out_of_range else Inr n)"

text \<open>What \<open>%u\<close> and \<open>%d\<close> store for a scanned number. For a number outside the
  range of its target ISO C leaves the behaviour undefined; the model follows glibc
  with a 64-bit \<open>long\<close>: \<open>strtoul\<close> saturates at \<open>2^64 - 1\<close> (and negates modulo
  \<open>2^64\<close>), \<open>strtol\<close> saturates at the ends of the signed 64-bit range, and the
  result is then truncated to the 32 bits of the target.\<close>

definition scan_unsigned :: "int \<Rightarrow> 32 word" where
  "scan_unsigned n =
     word_of_int (if 18446744073709551615 < \<bar>n\<bar> then 18446744073709551615 else n)"

definition scan_signed :: "int \<Rightarrow> int" where
  "scan_signed n = int32 (max (- 9223372036854775808) (min 9223372036854775807 n))"

text \<open>\<open>sscanf(cmd, "setChannel %u %d", &ch, &value) == 2\<close>: the literal characters
  must match, a blank in the format skips any (possibly no) whitespace, and both
  conversions must succeed; \<open>Some (ch, value)\<close> exactly when the call returns 2.\<close>

definition sscanf_setChannel :: "string \<Rightarrow> (32 word \<times> int) option" where
  "sscanf_setChannel s =
     (if \<not> startsWith s ''setChannel'' then None
      else
        case scan_int (dropWhile isspace_c (drop 10 s)) of
          None \<Rightarrow> None
        | Some (u, r1) \<Rightarrow>
            (case scan_int (dropWhile isspace_c r1) of
               None \<Rightarrow> None
             | Some (d, _) \<Rightarrow> Some (scan_unsigned u, scan_signed d)))"

subsection \<open>The parser\<close>

text \<open>The body of the \<open>while (iss >> token)\<close> loop of the \<open>setChannels\<close> branch for
  one token. Both \<open>stoi\<close> calls run before \<open>safeSetChannel\<close>; an exception from
  either is caught by \<open>catch (...)\<close> and the token is skipped. The first result is
  converted to \<open>unsigned int\<close>.\<close>

definition setChannels_token :: "string \<Rightarrow> int list \<Rightarrow> int list" where
  "setChannels_token token cs =
     (case find_char CHR ''='' token of
        None \<Rightarrow> cs
      | Some pos \<Rightarrow>
          (case stoi (take pos token) of
             Inl _ \<Rightarrow> cs
           | Inr c \<Rightarrow>
               (case stoi (drop (pos + 1) token) of
                  Inl _ \<Rightarrow> cs
                | Inr v \<Rightarrow> safeSetChannel (word_of_int c) v cs)))"

function setChannels_loop :: "string \<Rightarrow> int list \<Rightarrow> int list" where
  "setChannels_loop iss cs =
     (case extract_token iss of
        None \<Rightarrow> cs
      | Some (token, rest) \<Rightarrow> setChannels_loop rest (setChannels_token token cs))"
  by pat_completeness auto
termination
proof (relation "measure (\<lambda>(iss, cs). length iss)")
  show "wf (measure (\<lambda>(iss, cs). length iss))" by simp
next
  fix iss :: string and cs :: "int list" and x2 x y
  assume a: "extract_token iss = Some x2" and b: "(x, y) = x2"
  let ?s1 = "dropWhile isspace_c iss"
  from a b have ne: "?s1 \<noteq> []" and y: "y = dropWhile (\<lambda>c. \<not> isspace_c c) ?s1"
    by (auto simp: extract_token_def Let_def split: if_splits)
  from ne have "\<not> isspace_c (hd ?s1)" by (rule hd_dropWhile)
  with ne have "length (dropWhile (\<lambda>c. \<not> isspace_c c) ?s1) < length ?s1"
    by (cases ?s1) (simp_all add: le_imp_less_Suc length_dropWhile_le)
  moreover have "length ?s1 \<le> length iss" by (rule length_dropWhile_le)
  ultimately show "((y, setChannels_token x cs), (iss, cs)) \<in> measure (\<lambda>(iss, cs). length iss)"
    using y by simp
qed

declare setChannels_loop.simps [simp del]

text \<open>\<open>parseCommand(cmd)\<close> returns its flag; the store it edits through
  \<open>safeSetChannel\<close> is returned beside it. The \<open>setMode\<close> branch only prints a
  debug line.\<close>

definition parseCommand :: "string \<Rightarrow> int list \<Rightarrow> bool \<times> int list" where
  "parseCommand cmd cs =
     (if cmd = [] \<or> hd cmd = CHR ''#'' then (False, cs)
      else if startsWith cmd ''setChannels'' then
        (True, case extract_token cmd of
                 None \<Rightarrow> cs
               | Some (_, rest) \<Rightarrow> setChannels_loop rest cs)
      else if startsWith cmd ''setChannel'' then
        (True, case sscanf_setChannel cmd of
                 Some (ch, v) \<Rightarrow> safeSetChannel ch v cs
               | None \<Rightarrow> cs)
      else if cmd = ''sendChannels'' then (True, cs)
      else if startsWith cmd ''setMode'' then (True, cs)
      else (False, cs))"

section \<open>SchedulerLoop: the main loop\<close>

text \<open>\<open>getWorkMode()\<close> returns a constant.\<close>

definition getWorkMode :: string where
  "getWorkMode = ''manual''"

text \<open>The two compile-time switches of \<open>config.h\<close>, as parameters of the model.\<close>

record config =
  USE_CRSF_RECV :: bool
  USE_CRSF_SEND :: bool

text \<open>The variables of \<open>main\<close> that live across iterations, with the global store.\<close>

record main_state =
  currentChannels :: "int list"
  lastSendMs :: "32 word"
  needToSendChannels :: bool
  joystickAvailable :: bool

text \<open>What one iteration reads from outside: \<open>rpi_millis()\<close>, the lines of
  \<open>/tmp/crsf_command.txt\<close> (\<open>None\<close> when the file cannot be opened) and the
  joystick axes.\<close>

record tick_input =
  currentMillis :: "32 word"
  cmdFile :: "string list option"
  axes :: "nat \<Rightarrow> 16 word option"

text \<open>The state after the declarations of \<open>main\<close> and the block that sets the
  throttle channel, \<open>currentChannels[2] = DEFAULT_THROTTLE_VALUE\<close>.\<close>

definition main_init :: "bool \<Rightarrow> main_state" where
  "main_init js =
     \<lparr>currentChannels = currentChannels_static[2 := DEFAULT_THROTTLE_VALUE],
      lastSendMs = 0,
      needToSendChannels = False,
      joystickAvailable = js\<rparr>"

text \<open>\<open>while (std::getline(cmdFile, cmd)) if (parseCommand(cmd)) needToSendChannels = true;\<close>\<close>

fun drain_commands :: "string list \<Rightarrow> bool \<times> int list \<Rightarrow> bool \<times> int list" where
  "drain_commands [] (need, cs) = (need, cs)"
| "drain_commands (cmd # rest) (need, cs) =
     (case parseCommand cmd cs of
        (ok, cs') \<Rightarrow> drain_commands rest (if ok then True else need, cs'))"

text \<open>The command file of one iteration: nothing happens when it cannot be opened.\<close>

definition drain_file :: "string list option \<Rightarrow> bool \<times> int list \<Rightarrow> bool \<times> int list" where
  "drain_file f p = (case f of None \<Rightarrow> p | Some ls \<Rightarrow> drain_commands ls p)"

text \<open>An emission: \<open>crsfSetChannel(i + 1, currentChannels[i])\<close> for the 16
  channels, then \<open>crsfSendChannels()\<close>. The pushed pairs are the observable.\<close>

definition emit :: "int list \<Rightarrow> (nat \<times> int) list" where
  "emit cs = map (\<lambda>i. (i + 1, cs ! i)) [0..<CHANNEL_COUNT]"

text \<open>One iteration of \<open>while (true)\<close> in \<open>main\<close>: the new state and the emission
  made in this iteration, if any.\<close>

definition tick :: "config \<Rightarrow> tick_input \<Rightarrow> main_state \<Rightarrow> main_state \<times> (nat \<times> int) list option" where
  "tick cfg inp st =
     (let (need1, cs1) = drain_file (cmdFile inp) (needToSendChannels st, currentChannels st)
      in if \<not> USE_CRSF_SEND cfg
         then (st\<lparr>currentChannels := cs1, needToSendChannels := need1\<rparr>, None)
         else
           let (need2, cs2) =
                 (if getWorkMode = ''joystick'' \<and> joystickAvailable st
                  then (True, joystick_step (axes inp) cs1)
                  else (need1, cs1))
           in if currentMillis inp - lastSendMs st \<ge> CRSF_SEND_PERIOD_MS
              then (st\<lparr>currentChannels := cs2, lastSendMs := currentMillis inp,
                        needToSendChannels := False\<rparr>, Some (emit cs2))
              else if need2
              then (let timeSinceLastSend = currentMillis inp - lastSendMs st
                    in if timeSinceLastSend \<ge> 2
                       then (st\<lparr>currentChannels := cs2, lastSendMs := currentMillis inp,
                                 needToSendChannels := False\<rparr>, Some (emit cs2))
                       else (st\<lparr>currentChannels := cs2, needToSendChannels := need2\<rparr>, None))
              else (st\<lparr>currentChannels := cs2, needToSendChannels := need2\<rparr>, None))"

text \<open>A run of iterations: the final state and, per iteration, its emission.\<close>

fun run :: "config \<Rightarrow> tick_input list \<Rightarrow> main_state \<Rightarrow> main_state \<times> (nat \<times> int) list option list" where
  "run cfg [] st = (st, [])"
| "run cfg (inp # inps) st =
     (case tick cfg inp st of
        (st1, e) \<Rightarrow> (case run cfg inps st1 of (st2, es) \<Rightarrow> (st2, e # es)))"

text \<open>The stores the program can hold: the static initialiser, the throttle write
  of \<open>main\<close>, and from then on whatever a parsed command line or a joystick mapping
  step leaves.\<close>

inductive store_reachable :: "int list \<Rightarrow> bool" where
  static: "store_reachable currentChannels_static"
| throttle: "store_reachable (currentChannels_static[2 := DEFAULT_THROTTLE_VALUE])"
| command: "store_reachable cs \<Longrightarrow> store_reachable (snd (parseCommand cmd cs))"
| joystick: "store_reachable cs \<Longrightarrow> store_reachable (joystick_step js cs)"

text \<open>The states of \<open>main\<close> at the head of the loop.\<close>

inductive reachable :: "config \<Rightarrow> main_state \<Rightarrow> bool" for cfg where
  start: "reachable cfg (main_init js)"
| step: "reachable cfg st \<Longrightarrow> reachable cfg (fst (tick cfg inp st))"

definition valid_store :: "int list \<Rightarrow> bool" where
  "valid_store cs = (length cs = CHANNEL_COUNT \<and> list_all (\<lambda>v. CHANNEL_MIN \<le> v \<and> v \<le> CHANNEL_MAX) cs)"

text \<open>Whether a line makes \<open>parseCommand\<close> return \<open>true\<close>; the flag does not depend
  on the store.\<close>

definition recognized :: "string \<Rightarrow> bool" where
  "recognized cmd = fst (parseCommand cmd [])"

text \<open>An iteration in which no command arrives: the command file is absent or holds
  no line that \<open>parseCommand\<close> recognizes.\<close>

definition quiet_input :: "tick_input \<Rightarrow> bool" where
  "quiet_input inp = (case cmdFile inp of None \<Rightarrow> True | Some ls \<Rightarrow> \<forall>l\<in>set ls. \<not> recognized l)"

text \<open>The first whitespace-delimited token of a line, and the keywords of the grammar.\<close>

definition first_token :: "string \<Rightarrow> string option" where
  "first_token cmd = map_option fst (extract_token cmd)"

definition grammar_keywords :: "string list" where
  "grammar_keywords = [''setChannels'', ''setChannel'', ''sendChannels'', ''setMode'']"

section \<open>The reference mapping of the specification\<close>

text \<open>The mapping as the specification words it: inside the dead zone 1500,
  otherwise \<open>1500 + (v * 500) / 32768\<close> with the quotient truncated toward zero,
  clamped to [1000, 2000].\<close>

definition trunc_quot :: "int \<Rightarrow> int \<Rightarrow> int" where
  "trunc_quot a b = (if 0 \<le> a then a div b else - ((- a) div b))"

definition clamp_channel :: "int \<Rightarrow> int" where
  "clamp_channel x = max 1000 (min 2000 x)"

definition mapAxis_spec :: "int \<Rightarrow> int" where
  "mapAxis_spec v =
     (if \<bar>v\<bar> < 100 then 1500 else clamp_channel (1500 + trunc_quot (v * 500) 32768))"

section \<open>TelemetrySnapshotter\<close>

text \<open>\<open>crsf_sensor_gps_t\<close> comes from the CRSF protocol header; the worker reads
  four integer members of it.\<close>

record crsf_sensor_gps_t =
  gps_latitude :: int
  gps_longitude :: int
  gps_groundspeed :: int
  gps_altitude :: int

text \<open>What the worker reads from the \<open>CrsfSerial\<close> object in one cycle: the value
  each getter returns at that moment. \<open>getGpsSensor\<close> is \<open>None\<close> for a null
  pointer. Floating-point values are represented by the reals they stand for: a
  copied value is the same real, while the quotients of the GPS branch are exact
  here and rounded to binary64 in the program, and a NaN has no counterpart.\<close>

record CrsfSerial =
  isLinkUp :: bool
  crsf_lastReceive :: "32 word"
  getChannel :: "nat \<Rightarrow> int"
  getGpsSensor :: "crsf_sensor_gps_t option"
  getBatteryVoltage :: real
  getBatteryCurrent :: real
  getBatteryCapacity :: real
  getBatteryRemaining :: "8 word"
  getAttitudeRoll :: real
  getAttitudePitch :: real
  getAttitudeYaw :: real
  getRawAttitudeRoll :: "16 word"
  getRawAttitudePitch :: "16 word"
  getRawAttitudeYaw :: "16 word"

record SharedTelemetryData =
  linkUp :: bool
  lastReceive :: "32 word"
  channels :: "int list"
  latitude :: real
  longitude :: real
  altitude :: real
  speed :: real
  voltage :: real
  current :: real
  capacity :: real
  remaining :: "8 word"
  roll :: real
  pitch :: real
  yaw :: real
  rollRaw :: "16 word"
  pitchRaw :: "16 word"
  yawRaw :: "16 word"
  timestamp :: "64 word"

text \<open>The locals of \<open>telemetryWriterWorker\<close> that live across iterations. A time
  point of \<open>steady_clock\<close> is its count of nanoseconds; \<open>duration_cast\<close> to
  milliseconds divides by \<open>10^6\<close>, truncating.\<close>

record telemetry_state =
  shared :: SharedTelemetryData
  lastUpdate :: int

text \<open>The assignments of one snapshot, in source order.\<close>

definition fill_shared :: "CrsfSerial \<Rightarrow> int \<Rightarrow> SharedTelemetryData \<Rightarrow> SharedTelemetryData" where
  "fill_shared crsf now sh0 =
     (let sh1 = sh0\<lparr>linkUp := isLinkUp crsf,
                    lastReceive := crsf_lastReceive crsf,
                    timestamp := word_of_int (now sdiv 1000000)\<rparr>;
          sh2 = sh1\<lparr>channels := map (\<lambda>i. getChannel crsf (i + 1)) [0..<CHANNEL_COUNT]\<rparr>;
          sh3 = (case getGpsSensor crsf of
                   None \<Rightarrow> sh2
                 | Some gps \<Rightarrow>
                     sh2\<lparr>latitude := real_of_int (gps_latitude gps) / 10000000,
                         longitude := real_of_int (gps_longitude gps) / 10000000,
                         altitude := real_of_int (gps_altitude gps - 1000),
                         speed := real_of_int (gps_groundspeed gps) / 10\<rparr>);
          sh4 = sh3\<lparr>voltage := getBatteryVoltage crsf,
                    current := getBatteryCurrent crsf,
                    capacity := getBatteryCapacity crsf,
                    remaining := getBatteryRemaining crsf\<rparr>;
          sh5 = sh4\<lparr>roll := getAttitudeRoll crsf,
                    pitch := getAttitudePitch crsf,
                    yaw := getAttitudeYaw crsf,
                    rollRaw := getRawAttitudeRoll crsf,
                    pitchRaw := getRawAttitudePitch crsf,
                    yawRaw := getRawAttitudeYaw crsf\<rparr>
      in sh5)"

text \<open>One iteration of the worker's loop at time \<open>now\<close>: when less than the period
  has elapsed it sleeps and publishes nothing; otherwise it fills \<open>shared\<close> and writes
  it to the file when the file opens (\<open>file_ok\<close>).\<close>

definition telemetry_cycle ::
  "CrsfSerial \<Rightarrow> int \<Rightarrow> bool \<Rightarrow> telemetry_state \<Rightarrow> telemetry_state \<times> SharedTelemetryData option" where
  "telemetry_cycle crsf now file_ok st =
     (let elapsed = (now - lastUpdate st) sdiv 1000000
      in if elapsed < TELEMETRY_UPDATE_MS then (st, None)
         else
           let sh = fill_shared crsf now (shared st)
           in (\<lparr>shared = sh, lastUpdate = now\<rparr>, if file_ok then Some sh else None))"

fun telemetry_loop ::
  "(CrsfSerial \<times> int \<times> bool) list \<Rightarrow> telemetry_state \<Rightarrow> SharedTelemetryData option list" where
  "telemetry_loop [] st = []"
| "telemetry_loop ((crsf, now, file_ok) # rest) st =
     (case telemetry_cycle crsf now file_ok st of
        (st', out) \<Rightarrow> out # telemetry_loop rest st')"

text \<open>\<open>telemetryWriterWorker()\<close>: returns at once when \<open>crsfGetActive()\<close> is null
  (\<open>active = False\<close>); otherwise \<open>shared\<close> starts uninitialised (\<open>shared0\<close>, any value)
  and the loop runs from the starting time \<open>now0\<close>.\<close>

definition telemetryWriterWorker ::
  "bool \<Rightarrow> SharedTelemetryData \<Rightarrow> int \<Rightarrow> (CrsfSerial \<times> int \<times> bool) list \<Rightarrow> SharedTelemetryData option list" where
  "telemetryWriterWorker active shared0 now0 iters =
     (if \<not> active then []
      else telemetry_loop iters \<lparr>shared = shared0, lastUpdate = now0\<rparr>)"

section \<open>Properties of the axis mapping\<close>

lemma sint16_range: "- 32768 \<le> sint (v::16 word) \<and> sint v \<le> 32767"
  using sint_lt[of v] sint_ge[of v] by simp

lemma int32_id: "- 2147483648 \<le> k \<Longrightarrow> k \<le> 2147483647 \<Longrightarrow> int32 k = k"
  by (simp add: int32_def signed_take_bit_int_eq_self)

lemma sdiv_pos: "0 \<le> k \<Longrightarrow> 0 < l \<Longrightarrow> (k::int) sdiv l = k div l"
  by (simp add: signed_divide_int_def sgn_if)

lemma sdiv_neg: "k < 0 \<Longrightarrow> 0 < l \<Longrightarrow> (k::int) sdiv l = - ((- k) div l)"
  by (simp add: signed_divide_int_def sgn_if)

lemma sdiv_mono:
  assumes "a \<le> b" "0 < (c::int)"
  shows "a sdiv c \<le> b sdiv c"
proof (cases "0 \<le> a")
  case True
  then show ?thesis using assms by (simp add: sdiv_pos zdiv_mono1)
next
  case False
  note an = this
  show ?thesis
  proof (cases "0 \<le> b")
    case True
    have "a sdiv c \<le> 0" using an assms by (simp add: sdiv_neg pos_imp_zdiv_nonneg_iff)
    moreover have "0 \<le> b sdiv c" using True assms by (simp add: sdiv_pos pos_imp_zdiv_nonneg_iff)
    ultimately show ?thesis by simp
  next
    case False
    have "(- b) div c \<le> (- a) div c" using assms by (intro zdiv_mono1) simp_all
    then show ?thesis using an False assms by (simp add: sdiv_neg)
  qed
qed

lemma scaled_bounds:
  assumes "- 32768 \<le> k" "k \<le> 32767"
  shows "- 500 \<le> (k * 500) sdiv 32768 \<and> (k * 500) sdiv 32768 \<le> (499::int)"
proof -
  have a: "(- 32768 * 500) sdiv 32768 \<le> (k * 500) sdiv 32768"
    using assms by (intro sdiv_mono) simp_all
  have b: "(k * 500) sdiv 32768 \<le> (32767 * 500) sdiv (32768::int)"
    using assms by (intro sdiv_mono) simp_all
  have c: "(- 32768 * 500) sdiv (32768::int) = - 500" by (simp add: signed_divide_int_def)
  have d: "(32767 * 500) sdiv (32768::int) = 499" by (simp add: signed_divide_int_def)
  show ?thesis using a b c d by simp
qed

text \<open>No intermediate result of \<open>axisToUs\<close> leaves the 32-bit range, and the clamp
  never fires.\<close>

lemma axisToUs_plain:
  "axisToUs v = (if - 100 < sint v \<and> sint v < 100 then 1500
                 else 1500 + (sint v * 500) sdiv 32768)"
proof -
  let ?k = "sint v"
  have r: "- 32768 \<le> ?k" "?k \<le> 32767" using sint16_range[of v] by simp_all
  have q: "- 500 \<le> (?k * 500) sdiv 32768" "(?k * 500) sdiv 32768 \<le> 499"
    using scaled_bounds[OF r] by simp_all
  have 1: "int32 ?k = ?k" using r by (intro int32_id) simp_all
  have 2: "int32 500 = 500" by (intro int32_id) simp_all
  have 3: "int32 (?k * 500) = ?k * 500" using r by (intro int32_id) simp_all
  have 4: "int32 ((?k * 500) sdiv 32768) = (?k * 500) sdiv 32768"
    using q by (intro int32_id) simp_all
  have 5: "int32 (1500 + (?k * 500) sdiv 32768) = 1500 + (?k * 500) sdiv 32768"
    using q by (intro int32_id) simp_all
  show ?thesis
    using q by (simp add: axisToUs_def Let_def 1 2 3 4 5 JOYSTICK_SCALE_FACTOR_def
        JOYSTICK_DEADZONE_def CHANNEL_MIN_def CHANNEL_MAX_def)
qed

lemma axisToUs_range: "1000 \<le> axisToUs v \<and> axisToUs v \<le> 2000"
  using scaled_bounds[of "sint v"] sint16_range[of v] by (simp add: axisToUs_plain)

lemma trunc_quot_sdiv: "0 < b \<Longrightarrow> trunc_quot a b = a sdiv b"
  by (simp add: trunc_quot_def sdiv_pos sdiv_neg)

text \<open>Claim C3. For every 16-bit signed axis sample \<open>v\<close>, \<open>axisToUs\<close> equals the
  reference mapping of the specification (1500 inside the dead zone \<open>|v| < 100\<close>,
  otherwise \<open>1500 + (v * 500) / 32768\<close> truncated toward zero and clamped), and its
  result lies in [1000, 2000].\<close>

theorem axisToUs_refines_spec:
  "axisToUs v = mapAxis_spec (sint v) \<and> 1000 \<le> axisToUs v \<and> axisToUs v \<le> 2000"
proof -
  have q: "- 500 \<le> (sint v * 500) sdiv 32768" "(sint v * 500) sdiv 32768 \<le> 499"
    using scaled_bounds[of "sint v"] sint16_range[of v] by simp_all
  have "axisToUs v = mapAxis_spec (sint v)"
    using q by (simp add: axisToUs_plain mapAxis_spec_def clamp_channel_def trunc_quot_sdiv abs_less_iff)
  then show ?thesis using axisToUs_range[of v] by simp
qed

text \<open>Claim C8. For axis samples \<open>v1 \<le> v2\<close>, both outside the dead zone, the
  mapping is monotonic: \<open>axisToUs v1 \<le> axisToUs v2\<close>.\<close>

theorem axisToUs_monotone:
  assumes "sint v1 \<le> sint v2" and "100 \<le> \<bar>sint v1\<bar>" and "100 \<le> \<bar>sint v2\<bar>"
  shows "axisToUs v1 \<le> axisToUs v2"
proof -
  have "(sint v1 * 500) sdiv 32768 \<le> (sint v2 * 500) sdiv 32768"
    using assms(1) by (intro sdiv_mono) simp_all
  moreover have "sint v1 \<le> - 100 \<or> 100 \<le> sint v1" using assms(2) by arith
  then have "axisToUs v1 = 1500 + (sint v1 * 500) sdiv 32768"
    by (auto simp: axisToUs_plain)
  moreover have "sint v2 \<le> - 100 \<or> 100 \<le> sint v2" using assms(3) by arith
  then have "axisToUs v2 = 1500 + (sint v2 * 500) sdiv 32768"
    by (auto simp: axisToUs_plain)
  ultimately show ?thesis by simp
qed

theorem axisToUs_monotone_witness:
  "sint (- 200 :: 16 word) \<le> sint (300 :: 16 word) \<and> 100 \<le> \<bar>sint (- 200 :: 16 word)\<bar>
   \<and> 100 \<le> \<bar>sint (300 :: 16 word)\<bar> \<and> axisToUs (- 200) \<le> axisToUs 300"
proof -
  have a: "sint (- 200 :: 16 word) \<le> sint (300 :: 16 word)" by simp
  have b: "100 \<le> \<bar>sint (- 200 :: 16 word)\<bar>" by simp
  have c: "100 \<le> \<bar>sint (300 :: 16 word)\<bar>" by simp
  show ?thesis using a b c axisToUs_monotone[OF a b c] by simp
qed

section \<open>Properties of the channel store\<close>

lemma safeSetChannel_cases:
  "safeSetChannel ch v cs = cs \<or>
   (1 \<le> ch \<and> ch \<le> 16 \<and> 1000 \<le> v \<and> v \<le> 2000 \<and> safeSetChannel ch v cs = cs[unat ch - 1 := v])"
  by (simp add: safeSetChannel_def CHANNEL_COUNT_def CHANNEL_MIN_def CHANNEL_MAX_def)

lemma valid_store_update:
  "valid_store cs \<Longrightarrow> 1000 \<le> v \<Longrightarrow> v \<le> 2000 \<Longrightarrow> valid_store (cs[i := v])"
  by (auto simp: valid_store_def list_all_iff CHANNEL_MIN_def CHANNEL_MAX_def
      dest!: set_update_subset_insert[THEN subsetD])

lemma valid_safeSetChannel: "valid_store cs \<Longrightarrow> valid_store (safeSetChannel ch v cs)"
  using safeSetChannel_cases[of ch v cs] by (auto simp: valid_store_update)

lemma valid_static: "valid_store currentChannels_static"
  by (simp add: valid_store_def currentChannels_static_def CHANNEL_COUNT_def
      CHANNEL_MIN_def CHANNEL_MAX_def DEFAULT_CHANNEL_VALUE_def)

lemma valid_throttle: "valid_store (currentChannels_static[2 := DEFAULT_THROTTLE_VALUE])"
  by (rule valid_store_update[OF valid_static]) (simp_all add: DEFAULT_THROTTLE_VALUE_def)

lemma valid_setChannels_token: "valid_store cs \<Longrightarrow> valid_store (setChannels_token token cs)"
  by (simp add: setChannels_token_def valid_safeSetChannel split: option.splits sum.splits)

lemma valid_setChannels_loop: "valid_store cs \<Longrightarrow> valid_store (setChannels_loop iss cs)"
proof (induction iss cs rule: setChannels_loop.induct)
  case (1 iss cs)
  show ?case
  proof (cases "extract_token iss")
    case None
    then show ?thesis using "1.prems" by (subst setChannels_loop.simps) simp
  next
    case (Some p)
    obtain token rest where p: "p = (token, rest)" by (cases p)
    have "valid_store (setChannels_loop rest (setChannels_token token cs))"
      using "1.IH"[OF Some p[symmetric]] "1.prems" by (simp add: valid_setChannels_token)
    then show ?thesis using Some p by (subst setChannels_loop.simps) simp
  qed
qed

lemma valid_parseCommand: "valid_store cs \<Longrightarrow> valid_store (snd (parseCommand cmd cs))"
  by (simp add: parseCommand_def valid_safeSetChannel valid_setChannels_loop
      split: option.splits prod.splits)

lemma valid_joystick_step: "valid_store cs \<Longrightarrow> valid_store (joystick_step js cs)"
  by (simp add: joystick_step_def Let_def valid_safeSetChannel split: option.splits)

lemma store_reachable_valid: "store_reachable cs \<Longrightarrow> valid_store cs"
  by (induction rule: store_reachable.induct)
    (simp_all add: valid_static valid_throttle valid_parseCommand valid_joystick_step)

lemma valid_drain_commands:
  "valid_store (snd p) \<Longrightarrow> valid_store (snd (drain_commands ls p))"
proof (induction ls arbitrary: p)
  case Nil
  then show ?case by (cases p) simp
next
  case (Cons cmd rest)
  obtain need cs where p: "p = (need, cs)" by (cases p)
  obtain ok cs' where q: "parseCommand cmd cs = (ok, cs')" by (cases "parseCommand cmd cs")
  have "valid_store cs'" using valid_parseCommand[of cs cmd] Cons.prems p q by simp
  then show ?case using Cons.IH[of "(if ok then True else need, cs')"] p q by simp
qed


lemma valid_drain_file:
  "valid_store (snd p) \<Longrightarrow> valid_store (snd (drain_file f p))"
  by (cases f) (simp_all add: drain_file_def valid_drain_commands)

section \<open>Properties of one loop iteration\<close>

lemma tick_store:
  "currentChannels (fst (tick cfg inp st)) =
     snd (drain_file (cmdFile inp) (needToSendChannels st, currentChannels st))"
proof -
  obtain need1 cs1 where
    d: "drain_file (cmdFile inp) (needToSendChannels st, currentChannels st) = (need1, cs1)"
    by (cases "drain_file (cmdFile inp) (needToSendChannels st, currentChannels st)")
  show ?thesis
    unfolding tick_def by (simp add: d Let_def getWorkMode_def)
qed

lemma tick_emits_iff:
  assumes "USE_CRSF_SEND cfg"
  shows "(snd (tick cfg inp st) \<noteq> None) =
           (10 \<le> currentMillis inp - lastSendMs st \<or>
            (fst (drain_file (cmdFile inp) (needToSendChannels st, currentChannels st)) \<and>
             2 \<le> currentMillis inp - lastSendMs st))"
proof -
  obtain need1 cs1 where
    d: "drain_file (cmdFile inp) (needToSendChannels st, currentChannels st) = (need1, cs1)"
    by (cases "drain_file (cmdFile inp) (needToSendChannels st, currentChannels st)")
  show ?thesis
    unfolding tick_def using assms
    by (simp add: d Let_def getWorkMode_def CRSF_SEND_PERIOD_MS_def)
qed

lemma tick_emit_state:
  assumes "snd (tick cfg inp st) \<noteq> None"
  shows "lastSendMs (fst (tick cfg inp st)) = currentMillis inp \<and>
         \<not> needToSendChannels (fst (tick cfg inp st)) \<and>
         snd (tick cfg inp st) = Some (emit (currentChannels (fst (tick cfg inp st))))"
proof -
  obtain need1 cs1 where
    d: "drain_file (cmdFile inp) (needToSendChannels st, currentChannels st) = (need1, cs1)"
    by (cases "drain_file (cmdFile inp) (needToSendChannels st, currentChannels st)")
  show ?thesis
    using assms unfolding tick_def
    by (simp add: d Let_def getWorkMode_def split: if_splits)
qed

lemma tick_quiet_state:
  assumes "snd (tick cfg inp st) = None"
  shows "lastSendMs (fst (tick cfg inp st)) = lastSendMs st \<and>
         needToSendChannels (fst (tick cfg inp st)) =
           fst (drain_file (cmdFile inp) (needToSendChannels st, currentChannels st))"
proof -
  obtain need1 cs1 where
    d: "drain_file (cmdFile inp) (needToSendChannels st, currentChannels st) = (need1, cs1)"
    by (cases "drain_file (cmdFile inp) (needToSendChannels st, currentChannels st)")
  show ?thesis
    using assms unfolding tick_def
    by (simp add: d Let_def getWorkMode_def split: if_splits)
qed

lemma valid_tick:
  "valid_store (currentChannels st) \<Longrightarrow> valid_store (currentChannels (fst (tick cfg inp st)))"
  using valid_drain_file[of "(needToSendChannels st, currentChannels st)" "cmdFile inp"]
  by (simp add: tick_store)

lemma reachable_valid: "reachable cfg st \<Longrightarrow> valid_store (currentChannels st)"
  by (induction rule: reachable.induct) (simp_all add: main_init_def valid_throttle valid_tick)

lemma drain_commands_store_reachable:
  "store_reachable (snd p) \<Longrightarrow> store_reachable (snd (drain_commands ls p))"
proof (induction ls arbitrary: p)
  case Nil
  then show ?case by (cases p) simp
next
  case (Cons cmd rest)
  obtain need cs where p: "p = (need, cs)" by (cases p)
  obtain ok cs' where q: "parseCommand cmd cs = (ok, cs')" by (cases "parseCommand cmd cs")
  have "store_reachable cs'" using store_reachable.command[of cs cmd] Cons.prems p q by simp
  then show ?case using Cons.IH[of "(if ok then True else need, cs')"] p q by simp
qed

lemma reachable_store_reachable: "reachable cfg st \<Longrightarrow> store_reachable (currentChannels st)"
proof (induction rule: reachable.induct)
  case (start js)
  show ?case by (simp add: main_init_def store_reachable.throttle)
next
  case (step st inp)
  then show ?case
    using drain_commands_store_reachable[of "(needToSendChannels st, currentChannels st)"]
    by (cases "cmdFile inp") (simp_all add: tick_store drain_file_def)
qed

section \<open>Properties of the command parser\<close>

lemma setChannels_loop_None:
  "extract_token iss = None \<Longrightarrow> setChannels_loop iss cs = cs"
  by (subst setChannels_loop.simps) simp

lemma setChannels_loop_Some:
  "extract_token iss = Some (token, rest) \<Longrightarrow>
   setChannels_loop iss cs = setChannels_loop rest (setChannels_token token cs)"
  by (subst setChannels_loop.simps) simp

lemmas parse_eval =
  setChannels_token_def find_char_def stoi_def scan_int_def isspace_c_def isdigit_c_def
  decimal_def digit_val_def safeSetChannel_def CHANNEL_COUNT_def CHANNEL_MIN_def CHANNEL_MAX_def

lemma token_1_1200: "setChannels_token ''1=1200'' cs = cs[0 := 1200]"
  by (simp add: parse_eval)

lemma token_3_1800: "setChannels_token ''3=1800'' cs = cs[2 := 1800]"
  by (simp add: parse_eval)

lemma token_99_1: "setChannels_token ''99=1'' cs = cs"
  by (simp add: parse_eval)

lemma token_1_abc: "setChannels_token ''1=abc'' cs = cs"
  by (simp add: parse_eval)

lemma token_5_1700: "setChannels_token ''5=1700'' cs = cs[4 := 1700]"
  by (simp add: parse_eval)

lemma loop_example:
  "setChannels_loop '' 1=1200 3=1800 99=1 1=abc'' cs = cs[0 := 1200, 2 := 1800]"
proof -
  have e1: "extract_token '' 1=1200 3=1800 99=1 1=abc'' = Some (''1=1200'', '' 3=1800 99=1 1=abc'')"
    by (simp add: extract_token_def isspace_c_def)
  have e2: "extract_token '' 3=1800 99=1 1=abc'' = Some (''3=1800'', '' 99=1 1=abc'')"
    by (simp add: extract_token_def isspace_c_def)
  have e3: "extract_token '' 99=1 1=abc'' = Some (''99=1'', '' 1=abc'')"
    by (simp add: extract_token_def isspace_c_def)
  have e4: "extract_token '' 1=abc'' = Some (''1=abc'', '''')"
    by (simp add: extract_token_def isspace_c_def)
  have e5: "extract_token '''' = None"
    by (simp add: extract_token_def)
  show ?thesis
    by (simp add: setChannels_loop_Some[OF e1] setChannels_loop_Some[OF e2]
        setChannels_loop_Some[OF e3] setChannels_loop_Some[OF e4] setChannels_loop_None[OF e5]
        token_1_1200 token_3_1800 token_99_1 token_1_abc)
qed

lemma loop_example_continues:
  "setChannels_loop '' 99=1 1=abc 5=1700'' cs = cs[4 := 1700]"
proof -
  have e1: "extract_token '' 99=1 1=abc 5=1700'' = Some (''99=1'', '' 1=abc 5=1700'')"
    by (simp add: extract_token_def isspace_c_def)
  have e2: "extract_token '' 1=abc 5=1700'' = Some (''1=abc'', '' 5=1700'')"
    by (simp add: extract_token_def isspace_c_def)
  have e3: "extract_token '' 5=1700'' = Some (''5=1700'', '''')"
    by (simp add: extract_token_def isspace_c_def)
  have e4: "extract_token '''' = None"
    by (simp add: extract_token_def)
  show ?thesis
    by (simp add: setChannels_loop_Some[OF e1] setChannels_loop_Some[OF e2]
        setChannels_loop_Some[OF e3] setChannels_loop_None[OF e4]
        token_99_1 token_1_abc token_5_1700)
qed

lemma parse_example_eq:
  "parseCommand ''setChannels 1=1200 3=1800 99=1 1=abc'' cs = (True, cs[0 := 1200, 2 := 1800])"
proof -
  have e0: "extract_token ''setChannels 1=1200 3=1800 99=1 1=abc'' =
              Some (''setChannels'', '' 1=1200 3=1800 99=1 1=abc'')"
    by (simp add: extract_token_def isspace_c_def)
  show ?thesis
    by (simp add: parseCommand_def startsWith_def e0 loop_example)
qed

lemma parse_example_continues_eq:
  "parseCommand ''setChannels 99=1 1=abc 5=1700'' cs = (True, cs[4 := 1700])"
proof -
  have e0: "extract_token ''setChannels 99=1 1=abc 5=1700'' =
              Some (''setChannels'', '' 99=1 1=abc 5=1700'')"
    by (simp add: extract_token_def isspace_c_def)
  show ?thesis
    by (simp add: parseCommand_def startsWith_def e0 loop_example_continues)
qed

text \<open>Claim C6. Parsing the line \<open>setChannels 1=1200 3=1800 99=1 1=abc\<close> against any
  valid store sets channel 1 to 1200 and channel 3 to 1800 and changes nothing else; the
  out-of-range pair \<open>99=1\<close> and the malformed pair \<open>1=abc\<close> mutate nothing and do not
  stop the processing of later pairs; the parser returns \<open>true\<close>.\<close>

theorem parse_setChannels_example:
  assumes "valid_store cs"
  shows "parseCommand ''setChannels 1=1200 3=1800 99=1 1=abc'' cs = (True, cs[0 := 1200, 2 := 1800])
    \<and> cs[0 := 1200, 2 := 1800] ! 0 = 1200
    \<and> cs[0 := 1200, 2 := 1800] ! 2 = 1800
    \<and> (\<forall>j<16. j \<noteq> 0 \<and> j \<noteq> 2 \<longrightarrow> cs[0 := 1200, 2 := 1800] ! j = cs ! j)
    \<and> length (cs[0 := 1200, 2 := 1800]) = 16
    \<and> setChannels_token ''99=1'' cs = cs
    \<and> setChannels_token ''1=abc'' cs = cs
    \<and> parseCommand ''setChannels 99=1 1=abc 5=1700'' cs = (True, cs[4 := 1700])"
proof -
  have len: "length cs = 16" using assms by (simp add: valid_store_def CHANNEL_COUNT_def)
  show ?thesis
    using len by (simp add: parse_example_eq parse_example_continues_eq token_99_1 token_1_abc)
qed

theorem parse_setChannels_example_witness:
  "valid_store currentChannels_static \<and>
   parseCommand ''setChannels 1=1200 3=1800 99=1 1=abc'' currentChannels_static =
     (True, [1200, 1500, 1800, 1500, 1500, 1500, 1500, 1500,
             1500, 1500, 1500, 1500, 1500, 1500, 1500, 1500])"
proof -
  have v: "currentChannels_static[0 := 1200, 2 := 1800] =
      [1200, 1500, 1800, 1500, 1500, 1500, 1500, 1500,
       1500, 1500, 1500, 1500, 1500, 1500, 1500, 1500]"
    by (simp add: currentChannels_static_def DEFAULT_CHANNEL_VALUE_def)
  show ?thesis
    using parse_setChannels_example[OF valid_static] v valid_static by simp
qed

lemma parseCommand_flag: "fst (parseCommand cmd cs) = recognized cmd"
  by (simp add: parseCommand_def recognized_def)

lemma parseCommand_False_store: "\<not> fst (parseCommand cmd cs) \<Longrightarrow> snd (parseCommand cmd cs) = cs"
  by (auto simp: parseCommand_def split: if_splits)

lemma drain_commands_flag:
  "fst (drain_commands ls (need, cs)) = (need \<or> (\<exists>l\<in>set ls. recognized l))"
proof (induction ls arbitrary: need cs)
  case Nil
  show ?case by simp
next
  case (Cons cmd rest)
  obtain ok cs' where q: "parseCommand cmd cs = (ok, cs')" by (cases "parseCommand cmd cs")
  have ok: "ok = recognized cmd" using parseCommand_flag[of cmd cs] q by simp
  show ?case using Cons.IH[of "if ok then True else need" cs'] q ok by auto
qed

lemma drain_commands_unrecognized:
  "\<forall>l\<in>set ls. \<not> recognized l \<Longrightarrow> drain_commands ls (need, cs) = (need, cs)"
proof (induction ls)
  case Nil
  show ?case by simp
next
  case (Cons cmd rest)
  have f: "\<not> fst (parseCommand cmd cs)" using Cons.prems by (simp add: parseCommand_flag)
  have "parseCommand cmd cs = (False, cs)"
    using f parseCommand_False_store[OF f] by (cases "parseCommand cmd cs") simp
  then show ?case using Cons by simp
qed

text \<open>Claim C7 as stated fails: the first token \<open>setChannelsX\<close> is not a keyword, the
  line is neither blank nor a comment, and yet the parser returns \<open>true\<close> and writes
  channel 1.\<close>

theorem first_token_not_keyword_counterexample:
  "''setChannelsX 1=1200'' \<noteq> [] \<and> hd ''setChannelsX 1=1200'' \<noteq> CHR ''#''
   \<and> first_token ''setChannelsX 1=1200'' = Some ''setChannelsX''
   \<and> ''setChannelsX'' \<notin> set grammar_keywords
   \<and> parseCommand ''setChannelsX 1=1200'' currentChannels_static =
       (True, currentChannels_static[0 := 1200])
   \<and> currentChannels_static[0 := 1200] \<noteq> currentChannels_static"
proof -
  have e0: "extract_token ''setChannelsX 1=1200'' = Some (''setChannelsX'', '' 1=1200'')"
    by (simp add: extract_token_def isspace_c_def)
  have e1: "extract_token '' 1=1200'' = Some (''1=1200'', '''')"
    by (simp add: extract_token_def isspace_c_def)
  have e2: "extract_token '''' = None"
    by (simp add: extract_token_def)
  have p: "parseCommand ''setChannelsX 1=1200'' currentChannels_static =
       (True, currentChannels_static[0 := 1200])"
    by (simp add: parseCommand_def startsWith_def e0 setChannels_loop_Some[OF e1]
        setChannels_loop_None[OF e2] token_1_1200)
  have n: "currentChannels_static[0 := 1200] \<noteq> currentChannels_static"
    by (simp add: currentChannels_static_def DEFAULT_CHANNEL_VALUE_def)
  have k: "''setChannelsX'' \<notin> set grammar_keywords"
    by (simp add: grammar_keywords_def)
  show ?thesis
    using p n k by (simp add: first_token_def e0)
qed

text \<open>Claim C7, amended. Keywords are matched as prefixes of the line. An empty line, a
  line starting with \<open>#\<close>, and every line that neither begins with \<open>setChannel\<close>
  (which covers \<open>setChannels\<close>) or \<open>setMode\<close> nor equals \<open>sendChannels\<close> is
  unrecognized: the parser returns \<open>false\<close> and leaves the store as it is. Whenever the
  parser returns \<open>false\<close> the store is unchanged, and draining a command file raises the
  caller's flag only if some line made the parser return \<open>true\<close>.\<close>

theorem parseCommand_unrecognized:
  "((cmd = [] \<or> hd cmd = CHR ''#'' \<or>
      (\<not> startsWith cmd ''setChannel'' \<and> cmd \<noteq> ''sendChannels'' \<and> \<not> startsWith cmd ''setMode''))
     \<longrightarrow> parseCommand cmd cs = (False, cs))
   \<and> (\<not> fst (parseCommand cmd cs) \<longrightarrow> snd (parseCommand cmd cs) = cs)
   \<and> fst (drain_commands ls (need, cs)) = (need \<or> (\<exists>l\<in>set ls. fst (parseCommand l cs)))"
proof -
  have a: "startsWith cmd ''setChannels'' \<Longrightarrow> startsWith cmd ''setChannel''"
    by (auto simp: startsWith_def dest: arg_cong[where f="take 10"])
  have 1: "(cmd = [] \<or> hd cmd = CHR ''#'' \<or>
      (\<not> startsWith cmd ''setChannel'' \<and> cmd \<noteq> ''sendChannels'' \<and> \<not> startsWith cmd ''setMode''))
     \<longrightarrow> parseCommand cmd cs = (False, cs)"
    using a by (auto simp: parseCommand_def)
  have 3: "fst (drain_commands ls (need, cs)) = (need \<or> (\<exists>l\<in>set ls. fst (parseCommand l cs)))"
    by (simp add: drain_commands_flag parseCommand_flag)
  show ?thesis using 1 3 parseCommand_False_store[of cmd cs] by blast
qed

theorem parseCommand_unrecognized_witness:
  "\<not> startsWith ''hello 1=1200'' ''setChannel'' \<and> ''hello 1=1200'' \<noteq> ''sendChannels''
   \<and> \<not> startsWith ''hello 1=1200'' ''setMode''
   \<and> parseCommand ''hello 1=1200'' currentChannels_static = (False, currentChannels_static)
   \<and> \<not> fst (drain_commands [''hello 1=1200'', ''# note''] (False, currentChannels_static))"
  using parseCommand_unrecognized[of "''hello 1=1200''" currentChannels_static
      "[''hello 1=1200'', ''# note'']" False]
    parseCommand_unrecognized[of "''# note''" currentChannels_static "[]" False]
  by (simp add: startsWith_def)

section \<open>The channel store: contract and invariant\<close>

lemma unat_channel_index: "1 \<le> (ch :: 32 word) \<Longrightarrow> ch \<le> 16 \<Longrightarrow> unat ch - 1 < 16"
  by (simp add: word_le_nat_alt)

text \<open>Claim C4. For a channel index outside [1, 16] or a value outside [1000, 2000],
  \<open>safeSetChannel\<close> returns the whole 16-element store unchanged (and has no other
  result, so no error surfaces); for an index \<open>i\<close> in [1, 16] and a value \<open>x\<close> in
  [1000, 2000] it stores \<open>x\<close> at position \<open>i - 1\<close> and leaves every other position
  unchanged.\<close>

theorem safeSetChannel_contract:
  assumes "length cs = 16"
  shows "(\<not> (1 \<le> ch \<and> ch \<le> 16) \<or> \<not> (1000 \<le> v \<and> v \<le> 2000) \<longrightarrow> safeSetChannel ch v cs = cs)
    \<and> (1 \<le> ch \<and> ch \<le> 16 \<and> 1000 \<le> v \<and> v \<le> 2000 \<longrightarrow>
         length (safeSetChannel ch v cs) = 16
         \<and> safeSetChannel ch v cs ! (unat ch - 1) = v
         \<and> (\<forall>j<16. j \<noteq> unat ch - 1 \<longrightarrow> safeSetChannel ch v cs ! j = cs ! j))"
proof -
  have rej: "\<not> (1 \<le> ch \<and> ch \<le> 16) \<or> \<not> (1000 \<le> v \<and> v \<le> 2000) \<Longrightarrow> safeSetChannel ch v cs = cs"
    by (auto simp: safeSetChannel_def CHANNEL_COUNT_def CHANNEL_MIN_def CHANNEL_MAX_def)
  have acc: "1 \<le> ch \<and> ch \<le> 16 \<and> 1000 \<le> v \<and> v \<le> 2000 \<Longrightarrow>
         length (safeSetChannel ch v cs) = 16
         \<and> safeSetChannel ch v cs ! (unat ch - 1) = v
         \<and> (\<forall>j<16. j \<noteq> unat ch - 1 \<longrightarrow> safeSetChannel ch v cs ! j = cs ! j)"
    using assms unat_channel_index[of ch]
    by (simp add: safeSetChannel_def CHANNEL_COUNT_def CHANNEL_MIN_def CHANNEL_MAX_def)
  show ?thesis using rej acc by blast
qed

theorem safeSetChannel_contract_witness:
  "length currentChannels_static = 16
   \<and> safeSetChannel 17 1700 currentChannels_static = currentChannels_static
   \<and> safeSetChannel 5 999 currentChannels_static = currentChannels_static
   \<and> safeSetChannel 5 1700 currentChannels_static ! 4 = 1700
   \<and> safeSetChannel 5 1700 currentChannels_static ! 2 = currentChannels_static ! 2"
proof -
  have len: "length currentChannels_static = 16"
    by (simp add: currentChannels_static_def)
  show ?thesis
    using len safeSetChannel_contract[OF len, of 17 1700]
      safeSetChannel_contract[OF len, of 5 999]
      safeSetChannel_contract[OF len, of 5 1700]
    by simp
qed

lemma valid_store_nth:
  "valid_store cs \<Longrightarrow> length cs = 16 \<and> (\<forall>i<16. 1000 \<le> cs ! i \<and> cs ! i \<le> 2000)"
  by (simp add: valid_store_def list_all_length CHANNEL_COUNT_def CHANNEL_MIN_def CHANNEL_MAX_def)

text \<open>Claim C1. In every reachable state of the channel store each of the 16 values
  lies in [1000, 2000]: this holds for the initial stores and is kept by every command
  line and every joystick mapping step, hence by every iteration of the main loop; and
  every call of \<open>safeSetChannel\<close> either leaves the store unchanged or stores a value
  in range.\<close>

theorem channel_range_invariant:
  "(store_reachable cs \<longrightarrow> length cs = 16 \<and> (\<forall>i<16. 1000 \<le> cs ! i \<and> cs ! i \<le> 2000))
   \<and> (reachable cfg st \<longrightarrow>
        length (currentChannels st) = 16
        \<and> (\<forall>i<16. 1000 \<le> currentChannels st ! i \<and> currentChannels st ! i \<le> 2000))
   \<and> (safeSetChannel ch v cs' = cs'
        \<or> (1000 \<le> v \<and> v \<le> 2000 \<and> safeSetChannel ch v cs' = cs'[unat ch - 1 := v]))"
proof -
  have 1: "store_reachable cs \<longrightarrow> length cs = 16 \<and> (\<forall>i<16. 1000 \<le> cs ! i \<and> cs ! i \<le> 2000)"
    using valid_store_nth[OF store_reachable_valid] by blast
  have 2: "reachable cfg st \<longrightarrow>
        length (currentChannels st) = 16
        \<and> (\<forall>i<16. 1000 \<le> currentChannels st ! i \<and> currentChannels st ! i \<le> 2000)"
    using valid_store_nth[OF reachable_valid] by blast
  have 3: "safeSetChannel ch v cs' = cs'
        \<or> (1000 \<le> v \<and> v \<le> 2000 \<and> safeSetChannel ch v cs' = cs'[unat ch - 1 := v])"
    using safeSetChannel_cases[of ch v cs'] by blast
  show ?thesis using 1 2 3 by blast
qed

theorem channel_range_invariant_witness:
  "store_reachable (snd (parseCommand ''setChannels 5=1700 6=2001'' (currentChannels_static[2 := DEFAULT_THROTTLE_VALUE])))
   \<and> reachable \<lparr>USE_CRSF_RECV = True, USE_CRSF_SEND = True\<rparr> (main_init False)
   \<and> length (snd (parseCommand ''setChannels 5=1700 6=2001''
                 (currentChannels_static[2 := DEFAULT_THROTTLE_VALUE]))) = 16
   \<and> 1000 \<le> snd (parseCommand ''setChannels 5=1700 6=2001''
                 (currentChannels_static[2 := DEFAULT_THROTTLE_VALUE])) ! 4
   \<and> snd (parseCommand ''setChannels 5=1700 6=2001''
                 (currentChannels_static[2 := DEFAULT_THROTTLE_VALUE])) ! 5 \<le> 2000
   \<and> 1000 \<le> currentChannels (main_init False) ! 2
   \<and> currentChannels (main_init False) ! 2 \<le> 2000"
proof -
  let ?cs = "snd (parseCommand ''setChannels 5=1700 6=2001'' (currentChannels_static[2 := DEFAULT_THROTTLE_VALUE]))"
  let ?cfg = "\<lparr>USE_CRSF_RECV = True, USE_CRSF_SEND = True\<rparr>"
  have a: "store_reachable ?cs"
    by (rule store_reachable.command[OF store_reachable.throttle])
  have b: "reachable ?cfg (main_init False)"
    by (rule reachable.start)
  have c: "length ?cs = 16 \<and> (\<forall>i<16. 1000 \<le> ?cs ! i \<and> ?cs ! i \<le> 2000)"
    and d: "\<forall>i<16. 1000 \<le> currentChannels (main_init False) ! i
               \<and> currentChannels (main_init False) ! i \<le> 2000"
    using a b channel_range_invariant[of ?cs ?cfg "main_init False" 1 1500 "[]"] by blast+
  have c4: "1000 \<le> ?cs ! 4" and c5: "?cs ! 5 \<le> 2000" and len: "length ?cs = 16"
    using c by simp_all
  have d2: "1000 \<le> currentChannels (main_init False) ! 2"
    and d2': "currentChannels (main_init False) ! 2 \<le> 2000"
    using d by simp_all
  show ?thesis using a b len c4 c5 d2 d2' by blast
qed

section \<open>Scheduler timing\<close>

lemma drain_file_quiet:
  assumes "case f of None \<Rightarrow> True | Some ls \<Rightarrow> \<forall>l\<in>set ls. \<not> recognized l"
  shows "drain_file f (need, cs) = (need, cs)"
  using assms by (cases f) (simp_all add: drain_file_def drain_commands_unrecognized)

lemma drain_file_flag:
  "fst (drain_file f (need, cs)) =
     (need \<or> (case f of None \<Rightarrow> False | Some ls \<Rightarrow> \<exists>l\<in>set ls. recognized l))"
  by (cases f) (simp_all add: drain_file_def drain_commands_flag)

lemma word32_of_nat_ge_10: "d < 10 \<Longrightarrow> ((10 :: 32 word) \<le> of_nat (Suc d)) = (d = 9)"
proof -
  assume d: "d < 10"
  have "unat (of_nat (Suc d) :: 32 word) = Suc d"
    using d by (simp only: unat_of_nat) simp
  then have "((10 :: 32 word) \<le> of_nat (Suc d)) = (10 \<le> Suc d)"
    by (simp only: word_le_nat_alt) simp
  then show ?thesis using d by arith
qed

lemma quiet_tick:
  assumes send: "USE_CRSF_SEND cfg" and need: "\<not> needToSendChannels st"
    and q: "quiet_input inp"
    and t: "currentMillis inp = lastSendMs st + of_nat (Suc d)" and d: "d < 10"
  shows "(snd (tick cfg inp st) \<noteq> None) = (d = 9)"
    and "\<not> needToSendChannels (fst (tick cfg inp st))"
    and "lastSendMs (fst (tick cfg inp st)) = (if d = 9 then lastSendMs st + 10 else lastSendMs st)"
    and "currentChannels (fst (tick cfg inp st)) = currentChannels st"
    and "snd (tick cfg inp st) = (if d = 9 then Some (emit (currentChannels st)) else None)"
proof -
  have df: "drain_file (cmdFile inp) (needToSendChannels st, currentChannels st) =
      (needToSendChannels st, currentChannels st)"
    using q by (intro drain_file_quiet) (simp add: quiet_input_def)
  have diff: "currentMillis inp - lastSendMs st = of_nat (Suc d)"
    using t by (simp del: of_nat_Suc)
  have e0: "(snd (tick cfg inp st) \<noteq> None) =
      (10 \<le> (of_nat (Suc d) :: 32 word) \<or>
       (needToSendChannels st \<and> 2 \<le> (of_nat (Suc d) :: 32 word)))"
    unfolding tick_emits_iff[OF send] df diff by (simp only: fst_conv)
  show e: "(snd (tick cfg inp st) \<noteq> None) = (d = 9)"
    using e0 need word32_of_nat_ge_10[OF d] by blast
  show "\<not> needToSendChannels (fst (tick cfg inp st))"
  proof (cases "snd (tick cfg inp st) = None")
    case True
    then show ?thesis using tick_quiet_state[OF True, unfolded df] need by simp
  next
    case False
    then show ?thesis using tick_emit_state[OF False] by simp
  qed
  show "lastSendMs (fst (tick cfg inp st)) = (if d = 9 then lastSendMs st + 10 else lastSendMs st)"
  proof (cases "d = 9")
    case True
    then have "snd (tick cfg inp st) \<noteq> None" using e by simp
    then show ?thesis using tick_emit_state[of cfg inp st] t True by (simp del: of_nat_Suc)
  next
    case False
    then have "snd (tick cfg inp st) = None" using e by simp
    then show ?thesis using tick_quiet_state[of cfg inp st] False by simp
  qed
  show c: "currentChannels (fst (tick cfg inp st)) = currentChannels st"
    by (simp only: tick_store df snd_conv)
  show "snd (tick cfg inp st) = (if d = 9 then Some (emit (currentChannels st)) else None)"
  proof (cases "d = 9")
    case True
    then have "snd (tick cfg inp st) \<noteq> None" using e by simp
    then show ?thesis using tick_emit_state[of cfg inp st] c True by simp
  next
    case False
    then show ?thesis using e by simp
  qed
qed

lemma run_length: "length (snd (run cfg inps st)) = length inps"
proof (induction inps arbitrary: st)
  case Nil
  show ?case by simp
next
  case (Cons inp inps)
  obtain st1 e where tk: "tick cfg inp st = (st1, e)" by (cases "tick cfg inp st")
  obtain st2 es where rn: "run cfg inps st1 = (st2, es)" by (cases "run cfg inps st1")
  show ?case using Cons.IH[of st1] tk rn by simp
qed

lemma run_quiet:
  assumes "USE_CRSF_SEND cfg" and "\<not> needToSendChannels st" and "d < 10"
    and "\<forall>i<length inps. quiet_input (inps ! i) \<and>
            currentMillis (inps ! i) = lastSendMs st + of_nat (d + i + 1)"
    and "i < length inps"
  shows "snd (run cfg inps st) ! i =
           (if 10 dvd d + i + 1 then Some (emit (currentChannels st)) else None)"
  using assms
proof (induction inps arbitrary: st d i)
  case Nil
  then show ?case by simp
next
  case (Cons inp inps)
  obtain st1 e where tk: "tick cfg inp st = (st1, e)" by (cases "tick cfg inp st")
  obtain st2 es where rn: "run cfg inps st1 = (st2, es)" by (cases "run cfg inps st1")
  have hd_in: "quiet_input inp" "currentMillis inp = lastSendMs st + of_nat (Suc d)"
    using Cons.prems(4)[rule_format, of 0] by simp_all
  note qt = quiet_tick[OF Cons.prems(1) Cons.prems(2) hd_in Cons.prems(3)]
  have e: "e = (if d = 9 then Some (emit (currentChannels st)) else None)"
    using qt(5) tk by simp
  have c1: "currentChannels st1 = currentChannels st" using qt(4) tk by simp
  have n1: "\<not> needToSendChannels st1" using qt(2) tk by simp
  have l1: "lastSendMs st1 = (if d = 9 then lastSendMs st + 10 else lastSendMs st)"
    using qt(3) tk by simp
  show ?case
  proof (cases i)
    case 0
    have "(10 dvd d + 1) = (d = 9)" using Cons.prems(3) by presburger
    then show ?thesis using 0 e tk rn by simp
  next
    case (Suc j)
    have j: "j < length inps" using Cons.prems(5) Suc by simp
    define d' where "d' = (if d = 9 then 0 else Suc d)"
    have d': "d' < 10" using Cons.prems(3) by (simp add: d'_def)
    have rest: "\<forall>k<length inps. quiet_input (inps ! k) \<and>
            currentMillis (inps ! k) = lastSendMs st1 + of_nat (d' + k + 1)"
    proof (intro allI impI)
      fix k assume k: "k < length inps"
      have a: "quiet_input (inps ! k)"
        and b: "currentMillis (inps ! k) = lastSendMs st + of_nat (d + Suc k + 1)"
        using Cons.prems(4)[rule_format, of "Suc k"] k by simp_all
      have "lastSendMs st + of_nat (d + Suc k + 1) = lastSendMs st1 + of_nat (d' + k + 1)"
        by (simp add: l1 d'_def)
      then show "quiet_input (inps ! k) \<and>
            currentMillis (inps ! k) = lastSendMs st1 + of_nat (d' + k + 1)"
        using a b by simp
    qed
    have ih: "snd (run cfg inps st1) ! j =
        (if 10 dvd d' + j + 1 then Some (emit (currentChannels st1)) else None)"
      by (rule Cons.IH[OF Cons.prems(1) n1 d' rest j])
    have "(10 dvd d' + j + 1) = (10 dvd d + Suc j + 1)"
    proof (cases "d = 9")
      case True
      then have "d' = 0" by (simp add: d'_def)
      then show ?thesis using True by presburger
    next
      case False
      then have "d' = Suc d" by (simp add: d'_def)
      then show ?thesis by simp
    qed
    then show ?thesis using ih Suc tk rn c1 by simp
  qed
qed

lemma run_Cons_fst:
  "fst (run cfg (inp # inps) st) = fst (run cfg inps (fst (tick cfg inp st)))"
  by (simp split: prod.splits)

lemma run_Cons_snd:
  "snd (run cfg (inp # inps) st) =
     snd (tick cfg inp st) # snd (run cfg inps (fst (tick cfg inp st)))"
  by (simp split: prod.splits)

lemma run_nth:
  "i < length inps \<Longrightarrow>
   snd (run cfg inps st) ! i = snd (tick cfg (inps ! i) (fst (run cfg (take i inps) st)))"
proof (induction inps arbitrary: i st)
  case Nil
  then show ?case by simp
next
  case (Cons inp inps)
  show ?case
  proof (cases i)
    case 0
    then show ?thesis by (simp split: prod.splits)
  next
    case (Suc j)
    then have j: "j < length inps" using Cons.prems by simp
    show ?thesis
      using Cons.IH[OF j, of "fst (tick cfg inp st)"] Suc
      by (simp only: run_Cons_snd run_Cons_fst take_Suc_Cons nth_Cons_Suc)
  qed
qed

lemma run_take_Suc:
  "i < length inps \<Longrightarrow>
   fst (run cfg (take (Suc i) inps) st) =
     fst (tick cfg (inps ! i) (fst (run cfg (take i inps) st)))"
proof (induction inps arbitrary: i st)
  case Nil
  then show ?case by simp
next
  case (Cons inp inps)
  show ?case
  proof (cases i)
    case 0
    then show ?thesis by (simp split: prod.splits)
  next
    case (Suc j)
    then have j: "j < length inps" using Cons.prems by simp
    show ?thesis
      using Cons.IH[OF j, of "fst (tick cfg inp st)"] Suc
      by (simp only: run_Cons_fst take_Suc_Cons nth_Cons_Suc)
  qed
qed

text \<open>The value of \<open>lastSendMs\<close> before iteration \<open>i\<close> of a run is the time of the
  latest earlier emission.\<close>

lemma run_last_emission:
  assumes "j < i" and "i \<le> length inps"
    and "snd (run cfg inps st) ! j \<noteq> None"
    and "\<forall>k. j < k \<and> k < i \<longrightarrow> snd (run cfg inps st) ! k = None"
  shows "lastSendMs (fst (run cfg (take i inps) st)) = currentMillis (inps ! j)"
  using assms
proof (induction i)
  case 0
  then show ?case by simp
next
  case (Suc i)
  have i: "i < length inps" using Suc.prems(2) by simp
  let ?S = "fst (run cfg (take i inps) st)"
  have nth: "snd (run cfg inps st) ! i = snd (tick cfg (inps ! i) ?S)"
    by (rule run_nth[OF i])
  have nxt: "fst (run cfg (take (Suc i) inps) st) = fst (tick cfg (inps ! i) ?S)"
    by (rule run_take_Suc[OF i])
  show ?case
  proof (cases "j = i")
    case True
    have "snd (tick cfg (inps ! i) ?S) \<noteq> None" using Suc.prems(3) True nth by simp
    then show ?thesis using tick_emit_state[of cfg "inps ! i" ?S] nxt True by simp
  next
    case False
    then have ji: "j < i" using Suc.prems(1) by simp
    have q: "\<forall>k. j < k \<and> k < i \<longrightarrow> snd (run cfg inps st) ! k = None"
      using Suc.prems(4) by simp
    have ih: "lastSendMs ?S = currentMillis (inps ! j)"
      using Suc.IH[OF ji _ Suc.prems(3) q] i by simp
    have "snd (run cfg inps st) ! i = None" using Suc.prems(4) ji by simp
    then have "snd (tick cfg (inps ! i) ?S) = None" using nth by simp
    then show ?thesis using tick_quiet_state[of cfg "inps ! i" ?S] nxt ih by simp
  qed
qed

text \<open>Claim C5. With the sender compiled in, the flag \<open>needToSendChannels\<close> clear, and
  iterations 1 ms apart in which no command arrives, the iteration \<open>k\<close> ms after the last
  emission emits exactly when \<open>k\<close> is a multiple of 10: none of the first nine
  iterations emits, the tenth does. An emission pushes all 16 channels: the pairs of
  channel number \<open>k + 1\<close> and stored value at position \<open>k\<close>, for \<open>k\<close> from 0 to 15.\<close>

theorem periodic_emission:
  assumes "USE_CRSF_SEND cfg" and "\<not> needToSendChannels st"
    and "\<forall>i<length inps. quiet_input (inps ! i) \<and>
            currentMillis (inps ! i) = lastSendMs st + of_nat (i + 1)"
    and "i < length inps"
  shows "snd (run cfg inps st) ! i =
           (if 10 dvd i + 1
            then Some (map (\<lambda>k. (k + 1, currentChannels st ! k)) [0..<16])
            else None)
       \<and> (i + 1 < 10 \<longrightarrow> snd (run cfg inps st) ! i = None)
       \<and> (i + 1 = 10 \<longrightarrow>
            snd (run cfg inps st) ! i =
              Some [(1, currentChannels st ! 0), (2, currentChannels st ! 1),
                    (3, currentChannels st ! 2), (4, currentChannels st ! 3),
                    (5, currentChannels st ! 4), (6, currentChannels st ! 5),
                    (7, currentChannels st ! 6), (8, currentChannels st ! 7),
                    (9, currentChannels st ! 8), (10, currentChannels st ! 9),
                    (11, currentChannels st ! 10), (12, currentChannels st ! 11),
                    (13, currentChannels st ! 12), (14, currentChannels st ! 13),
                    (15, currentChannels st ! 14), (16, currentChannels st ! 15)])"
proof -
  have z: "(0::nat) < 10" by simp
  have r: "snd (run cfg inps st) ! i =
           (if 10 dvd 0 + i + 1 then Some (emit (currentChannels st)) else None)"
    using assms(3) by (intro run_quiet[OF assms(1) assms(2) z _ assms(4)]) simp
  have em: "emit (currentChannels st) = map (\<lambda>k. (k + 1, currentChannels st ! k)) [0..<16]"
    by (simp only: emit_def CHANNEL_COUNT_def)
  have upt16: "[0..<16] = [0, 1, 2, 3, 4, 5, 6, 7, 8, 9, 10, 11, 12, 13, 14, 15 :: nat]"
    by (simp add: upt_rec)
  have ex: "map (\<lambda>k. (k + 1, currentChannels st ! k)) [0..<16] =
              [(1, currentChannels st ! 0), (2, currentChannels st ! 1),
               (3, currentChannels st ! 2), (4, currentChannels st ! 3),
               (5, currentChannels st ! 4), (6, currentChannels st ! 5),
               (7, currentChannels st ! 6), (8, currentChannels st ! 7),
               (9, currentChannels st ! 8), (10, currentChannels st ! 9),
               (11, currentChannels st ! 10), (12, currentChannels st ! 11),
               (13, currentChannels st ! 12), (14, currentChannels st ! 13),
               (15, currentChannels st ! 14), (16, currentChannels st ! 15)]"
    by (simp only: upt16) simp
  have 1: "snd (run cfg inps st) ! i =
           (if 10 dvd i + 1
            then Some (map (\<lambda>k. (k + 1, currentChannels st ! k)) [0..<16])
            else None)"
    using r by (simp only: em) simp
  have nd: "i + 1 < 10 \<Longrightarrow> \<not> 10 dvd i + 1" by presburger
  have 2: "i + 1 < 10 \<longrightarrow> snd (run cfg inps st) ! i = None"
    using 1 nd by simp
  have 3: "i + 1 = 10 \<longrightarrow>
            snd (run cfg inps st) ! i =
              Some [(1, currentChannels st ! 0), (2, currentChannels st ! 1),
                    (3, currentChannels st ! 2), (4, currentChannels st ! 3),
                    (5, currentChannels st ! 4), (6, currentChannels st ! 5),
                    (7, currentChannels st ! 6), (8, currentChannels st ! 7),
                    (9, currentChannels st ! 8), (10, currentChannels st ! 9),
                    (11, currentChannels st ! 10), (12, currentChannels st ! 11),
                    (13, currentChannels st ! 12), (14, currentChannels st ! 13),
                    (15, currentChannels st ! 14), (16, currentChannels st ! 15)]"
    using 1 by (simp only: ex) simp
  show ?thesis using 1 2 3 by blast
qed

theorem periodic_emission_witness:
  "snd (run \<lparr>USE_CRSF_RECV = True, USE_CRSF_SEND = True\<rparr>
         (map (\<lambda>k. \<lparr>currentMillis = of_nat k, cmdFile = None, axes = (\<lambda>_. None)\<rparr>) [1..<13])
         (main_init False)) ! 9 =
     Some [(1, 1500), (2, 1500), (3, 1000), (4, 1500), (5, 1500), (6, 1500), (7, 1500),
           (8, 1500), (9, 1500), (10, 1500), (11, 1500), (12, 1500), (13, 1500),
           (14, 1500), (15, 1500), (16, 1500)]
   \<and> snd (run \<lparr>USE_CRSF_RECV = True, USE_CRSF_SEND = True\<rparr>
         (map (\<lambda>k. \<lparr>currentMillis = of_nat k, cmdFile = None, axes = (\<lambda>_. None)\<rparr>) [1..<13])
         (main_init False)) ! 8 = None"
proof -
  let ?cfg = "\<lparr>USE_CRSF_RECV = True, USE_CRSF_SEND = True\<rparr>"
  let ?inps = "map (\<lambda>k. \<lparr>currentMillis = of_nat k, cmdFile = None, axes = (\<lambda>_. None)\<rparr>) [1..<13]"
  let ?st = "main_init False"
  have send: "USE_CRSF_SEND ?cfg" by simp
  have need: "\<not> needToSendChannels ?st" by (simp add: main_init_def)
  have q: "\<forall>i<length ?inps. quiet_input (?inps ! i) \<and>
            currentMillis (?inps ! i) = lastSendMs ?st + of_nat (i + 1)"
    by (simp add: quiet_input_def main_init_def)
  have i9: "9 < length ?inps" by simp
  have i8: "8 < length ?inps" by simp
  have cs: "currentChannels ?st =
      [1500, 1500, 1000, 1500, 1500, 1500, 1500, 1500,
       1500, 1500, 1500, 1500, 1500, 1500, 1500, 1500]"
    by (simp add: main_init_def currentChannels_static_def DEFAULT_CHANNEL_VALUE_def
        DEFAULT_THROTTLE_VALUE_def)
  have e9: "snd (run ?cfg ?inps ?st) ! 9 =
     Some [(1, 1500), (2, 1500), (3, 1000), (4, 1500), (5, 1500), (6, 1500), (7, 1500),
           (8, 1500), (9, 1500), (10, 1500), (11, 1500), (12, 1500), (13, 1500),
           (14, 1500), (15, 1500), (16, 1500)]"
    using periodic_emission[OF send need q i9] by (simp add: cs upt_rec)
  have e8: "snd (run ?cfg ?inps ?st) ! 8 = None"
    using periodic_emission[OF send need q i8] by simp
  show ?thesis using e9 e8 by blast
qed

text \<open>Claim C2 as stated fails: a recognized command read 3 ms after the last emission
  (at 103 after an emission at 100) is followed by an emission in the same iteration,
  0 ms after the command, not 2 ms or more after it.\<close>

theorem expedite_not_delayed_counterexample:
  "currentMillis \<lparr>currentMillis = 103, cmdFile = Some [''sendChannels''], axes = (\<lambda>_. None)\<rparr>
     = lastSendMs ((main_init False)\<lparr>lastSendMs := 100\<rparr>) + 3
   \<and> recognized ''sendChannels''
   \<and> snd (tick \<lparr>USE_CRSF_RECV = True, USE_CRSF_SEND = True\<rparr>
              \<lparr>currentMillis = 103, cmdFile = Some [''sendChannels''], axes = (\<lambda>_. None)\<rparr>
              ((main_init False)\<lparr>lastSendMs := 100\<rparr>)) \<noteq> None
   \<and> lastSendMs (fst (tick \<lparr>USE_CRSF_RECV = True, USE_CRSF_SEND = True\<rparr>
              \<lparr>currentMillis = 103, cmdFile = Some [''sendChannels''], axes = (\<lambda>_. None)\<rparr>
              ((main_init False)\<lparr>lastSendMs := 100\<rparr>))) = 103
   \<and> \<not> ((103 :: nat) + 2 \<le> unat (lastSendMs (fst (tick \<lparr>USE_CRSF_RECV = True, USE_CRSF_SEND = True\<rparr>
              \<lparr>currentMillis = 103, cmdFile = Some [''sendChannels''], axes = (\<lambda>_. None)\<rparr>
              ((main_init False)\<lparr>lastSendMs := 100\<rparr>)))))"
proof -
  let ?cfg = "\<lparr>USE_CRSF_RECV = True, USE_CRSF_SEND = True\<rparr>"
  let ?inp = "\<lparr>currentMillis = 103, cmdFile = Some [''sendChannels''], axes = (\<lambda>_. None)\<rparr>"
  let ?st = "(main_init False)\<lparr>lastSendMs := 100\<rparr>"
  have rec: "recognized ''sendChannels''"
    by (simp add: recognized_def parseCommand_def startsWith_def)
  have send: "USE_CRSF_SEND ?cfg" by simp
  have df: "fst (drain_file (cmdFile ?inp) (needToSendChannels ?st, currentChannels ?st))"
    using rec by (simp add: drain_file_flag)
  have em: "snd (tick ?cfg ?inp ?st) \<noteq> None"
    unfolding tick_emits_iff[OF send] using df by (simp add: main_init_def)
  have l: "lastSendMs (fst (tick ?cfg ?inp ?st)) = 103"
    using tick_emit_state[OF em] by simp
  show ?thesis using rec em l by (simp add: main_init_def)
qed

text \<open>Claim C2, amended. The 2 ms spacing is measured from the last emission, not from
  the command: when an iteration 3 ms after the last emission reads a recognized
  command, that same iteration emits. Every emitting iteration comes at least 2 ms (as
  an unsigned 32-bit difference) after the value of \<open>lastSendMs\<close> it started with and
  sets \<open>lastSendMs\<close> to its own time; every silent iteration keeps \<open>lastSendMs\<close>.
  Hence in any run two consecutive emissions are at least 2 ms apart.\<close>

theorem expedite_emission:
  assumes "USE_CRSF_SEND cfg"
  shows "(currentMillis inp = lastSendMs st + 3 \<and> cmdFile inp = Some ls \<and> (\<exists>l\<in>set ls. recognized l)
            \<longrightarrow> snd (tick cfg inp st) \<noteq> None \<and> lastSendMs (fst (tick cfg inp st)) = currentMillis inp)
         \<and> (snd (tick cfg inp st) \<noteq> None \<longrightarrow>
               2 \<le> currentMillis inp - lastSendMs st
               \<and> lastSendMs (fst (tick cfg inp st)) = currentMillis inp
               \<and> \<not> needToSendChannels (fst (tick cfg inp st)))
         \<and> (snd (tick cfg inp st) = None \<longrightarrow>
               lastSendMs (fst (tick cfg inp st)) = lastSendMs st)
         \<and> (j < i \<and> i < length inps
               \<and> snd (run cfg inps st) ! j \<noteq> None
               \<and> snd (run cfg inps st) ! i \<noteq> None
               \<and> (\<forall>k. j < k \<and> k < i \<longrightarrow> snd (run cfg inps st) ! k = None)
             \<longrightarrow> 2 \<le> currentMillis (inps ! i) - currentMillis (inps ! j))"
proof -
  have a: "snd (tick cfg inp st) \<noteq> None \<and> lastSendMs (fst (tick cfg inp st)) = currentMillis inp"
    if h: "currentMillis inp = lastSendMs st + 3 \<and> cmdFile inp = Some ls \<and> (\<exists>l\<in>set ls. recognized l)"
  proof -
    have df: "fst (drain_file (cmdFile inp) (needToSendChannels st, currentChannels st))"
      using h by (simp add: drain_file_flag)
    have diff: "currentMillis inp - lastSendMs st = 3" using h by simp
    have em: "snd (tick cfg inp st) \<noteq> None"
      unfolding tick_emits_iff[OF assms] diff using df by simp
    show ?thesis using em tick_emit_state[OF em] by simp
  qed
  have w: "(10 :: 32 word) \<le> x \<Longrightarrow> 2 \<le> x" for x
    by (simp add: word_le_nat_alt)
  have g: "2 \<le> currentMillis inp' - lastSendMs st'" if h: "snd (tick cfg inp' st') \<noteq> None"
    for inp' st'
    using h w unfolding tick_emits_iff[OF assms] by blast
  have b: "2 \<le> currentMillis inp - lastSendMs st
               \<and> lastSendMs (fst (tick cfg inp st)) = currentMillis inp
               \<and> \<not> needToSendChannels (fst (tick cfg inp st))"
    if h: "snd (tick cfg inp st) \<noteq> None"
    using g[OF h] tick_emit_state[OF h] by simp
  have c: "lastSendMs (fst (tick cfg inp st)) = lastSendMs st"
    if h: "snd (tick cfg inp st) = None"
    using tick_quiet_state[OF h] by simp
  have d: "2 \<le> currentMillis (inps ! i) - currentMillis (inps ! j)"
    if h: "j < i \<and> i < length inps
               \<and> snd (run cfg inps st) ! j \<noteq> None
               \<and> snd (run cfg inps st) ! i \<noteq> None
               \<and> (\<forall>k. j < k \<and> k < i \<longrightarrow> snd (run cfg inps st) ! k = None)"
  proof -
    let ?S = "fst (run cfg (take i inps) st)"
    have ji: "j < i" and il: "i < length inps" and ile: "i \<le> length inps"
      and ej: "snd (run cfg inps st) ! j \<noteq> None"
      and ei: "snd (run cfg inps st) ! i \<noteq> None"
      and q: "\<forall>k. j < k \<and> k < i \<longrightarrow> snd (run cfg inps st) ! k = None"
      using h by simp_all
    have l: "lastSendMs ?S = currentMillis (inps ! j)"
      by (rule run_last_emission[OF ji ile ej q])
    have "snd (tick cfg (inps ! i) ?S) \<noteq> None" using ei run_nth[OF il, of cfg st] by simp
    then have "2 \<le> currentMillis (inps ! i) - lastSendMs ?S" by (rule g)
    then show ?thesis using l by simp
  qed
  show ?thesis using a b c d by blast
qed

theorem expedite_emission_witness:
  "USE_CRSF_SEND \<lparr>USE_CRSF_RECV = True, USE_CRSF_SEND = True\<rparr>
   \<and> snd (tick \<lparr>USE_CRSF_RECV = True, USE_CRSF_SEND = True\<rparr>
              \<lparr>currentMillis = 103, cmdFile = Some [''setChannel 5 1700''], axes = (\<lambda>_. None)\<rparr>
              ((main_init False)\<lparr>lastSendMs := 100\<rparr>)) \<noteq> None
   \<and> lastSendMs (fst (tick \<lparr>USE_CRSF_RECV = True, USE_CRSF_SEND = True\<rparr>
              \<lparr>currentMillis = 103, cmdFile = Some [''setChannel 5 1700''], axes = (\<lambda>_. None)\<rparr>
              ((main_init False)\<lparr>lastSendMs := 100\<rparr>))) = 103
   \<and> map (\<lambda>e. e \<noteq> None)
         (snd (run \<lparr>USE_CRSF_RECV = True, USE_CRSF_SEND = True\<rparr>
            [\<lparr>currentMillis = 103, cmdFile = Some [''sendChannels''], axes = (\<lambda>_. None)\<rparr>,
             \<lparr>currentMillis = 104, cmdFile = Some [''sendChannels''], axes = (\<lambda>_. None)\<rparr>,
             \<lparr>currentMillis = 105, cmdFile = None, axes = (\<lambda>_. None)\<rparr>]
            ((main_init False)\<lparr>lastSendMs := 100\<rparr>))) = [True, False, True]
   \<and> (2 :: 32 word) \<le> 105 - 103"
proof -
  let ?cfg = "\<lparr>USE_CRSF_RECV = True, USE_CRSF_SEND = True\<rparr>"
  let ?inp = "\<lparr>currentMillis = 103, cmdFile = Some [''setChannel 5 1700''], axes = (\<lambda>_. None)\<rparr>"
  let ?st = "(main_init False)\<lparr>lastSendMs := 100\<rparr>"
  let ?inps = "[\<lparr>currentMillis = 103, cmdFile = Some [''sendChannels''], axes = (\<lambda>_. None)\<rparr>,
             \<lparr>currentMillis = 104, cmdFile = Some [''sendChannels''], axes = (\<lambda>_. None)\<rparr>,
             \<lparr>currentMillis = 105, cmdFile = None, axes = (\<lambda>_. None)\<rparr>]"
  have send: "USE_CRSF_SEND ?cfg" by simp
  have rec: "recognized ''setChannel 5 1700''"
    by (simp add: recognized_def parseCommand_def startsWith_def)
  have t: "snd (tick ?cfg ?inp ?st) \<noteq> None \<and> lastSendMs (fst (tick ?cfg ?inp ?st)) = 103"
    using expedite_emission[OF send, of ?inp ?st "[''setChannel 5 1700'']" 0 0 "[]"] rec by simp
  have es: "map (\<lambda>e. e \<noteq> None) (snd (run ?cfg ?inps ?st)) = [True, False, True]"
    by (simp add: tick_def drain_file_def parseCommand_def startsWith_def Let_def
        getWorkMode_def CRSF_SEND_PERIOD_MS_def main_init_def word_le_nat_alt)
  have e0: "snd (run ?cfg ?inps ?st) ! 0 \<noteq> None"
    and e1: "snd (run ?cfg ?inps ?st) ! 1 = None"
    and e2: "snd (run ?cfg ?inps ?st) ! 2 \<noteq> None"
    using es by (auto simp: map_eq_Cons_conv)
  have q: "\<forall>k. 0 < k \<and> k < (2::nat) \<longrightarrow> snd (run ?cfg ?inps ?st) ! k = None"
  proof (intro allI impI)
    fix k :: nat assume "0 < k \<and> k < 2"
    then have "k = 1" by arith
    then show "snd (run ?cfg ?inps ?st) ! k = None" using e1 by simp
  qed
  have g: "2 \<le> currentMillis (?inps ! 2) - currentMillis (?inps ! 0)"
    using expedite_emission[OF send, of ?inp ?st "[''setChannel 5 1700'']" 0 2 ?inps] e0 e2 q
    by simp
  show ?thesis using send t es g by simp
qed

section \<open>The inverted axes\<close>

lemma neg_axis_min: "neg_axis (- 32768) = - 32768"
  by (simp add: neg_axis_def)

lemma axisToUs_neg_min: "axisToUs (neg_axis (- 32768)) = 1000"
  by (simp add: neg_axis_def axisToUs_plain signed_divide_int_def)

lemma axisToUs_neg_max: "axisToUs (neg_axis 32767) = 1001"
  by (simp add: neg_axis_def axisToUs_plain signed_divide_int_def)

lemma axisToUs_neg_next: "axisToUs (neg_axis (- 32767)) = 1999"
  by (simp add: neg_axis_def axisToUs_plain signed_divide_int_def)

lemma joystick_throttle:
  assumes "length cs = 16" and "js 1 = Some a"
  shows "joystick_step js cs ! 2 = axisToUs (neg_axis a)"
  using assms axisToUs_range[of "neg_axis a"]
  by (simp add: joystick_step_def Let_def safeSetChannel_def CHANNEL_COUNT_def CHANNEL_MIN_def
      CHANNEL_MAX_def split: option.splits)

lemma joystick_pitch:
  assumes "length cs = 16" and "js 3 = Some a"
  shows "joystick_step js cs ! 1 = axisToUs (neg_axis a)"
  using assms axisToUs_range[of "neg_axis a"]
  by (simp add: joystick_step_def Let_def safeSetChannel_def CHANNEL_COUNT_def CHANNEL_MIN_def
      CHANNEL_MAX_def split: option.splits)

text \<open>Claim C9 as stated fails in its last part: on an inverted axis the sample
  \<open>-32768\<close> and the opposite full deflection \<open>32767\<close> do not produce the same output
  (1000 against 1001).\<close>

theorem inverted_axis_extremes_counterexample:
  "axisToUs (neg_axis (- 32768)) \<noteq> axisToUs (neg_axis 32767)"
  by (simp add: axisToUs_neg_min axisToUs_neg_max)

text \<open>Claim C9, amended. On the two inverted axes (throttle from axis 1, pitch from
  axis 3) a raw sample of exactly \<open>-32768\<close> maps to 1000, not 2000: its negation, taken
  back to 16 bits, is \<open>-32768\<close> again. So this full deflection lands at the low end of
  the range, one below the 1001 of the opposite full deflection \<open>32767\<close>, while its
  neighbour \<open>-32767\<close> maps to 1999.\<close>

theorem inverted_axis_min_sample:
  "neg_axis (- 32768) = - 32768
   \<and> axisToUs (neg_axis (- 32768)) = 1000
   \<and> axisToUs (neg_axis (- 32768)) \<noteq> 2000
   \<and> axisToUs (neg_axis 32767) = 1001
   \<and> axisToUs (neg_axis (- 32767)) = 1999
   \<and> (length cs = 16 \<and> js 1 = Some (- 32768) \<longrightarrow> joystick_step js cs ! 2 = 1000)
   \<and> (length cs = 16 \<and> js 3 = Some (- 32768) \<longrightarrow> joystick_step js cs ! 1 = 1000)"
proof -
  have t: "length cs = 16 \<and> js 1 = Some (- 32768) \<longrightarrow> joystick_step js cs ! 2 = 1000"
    using joystick_throttle[of cs js "- 32768"] by (simp only: axisToUs_neg_min) blast
  have p: "length cs = 16 \<and> js 3 = Some (- 32768) \<longrightarrow> joystick_step js cs ! 1 = 1000"
    using joystick_pitch[of cs js "- 32768"] by (simp only: axisToUs_neg_min) blast
  have n: "axisToUs (neg_axis (- 32768)) \<noteq> 2000"
    by (simp only: axisToUs_neg_min)
  show ?thesis
    using neg_axis_min axisToUs_neg_min n axisToUs_neg_max axisToUs_neg_next t p by blast
qed

theorem inverted_axis_min_sample_witness:
  "length currentChannels_static = 16
   \<and> joystick_step (\<lambda>i. if i = 1 \<or> i = 3 then Some (- 32768) else None) currentChannels_static ! 2 = 1000
   \<and> joystick_step (\<lambda>i. if i = 1 \<or> i = 3 then Some (- 32768) else None) currentChannels_static ! 1 = 1000"
proof -
  have len: "length currentChannels_static = 16" by (simp add: currentChannels_static_def)
  show ?thesis
    using len inverted_axis_min_sample[of currentChannels_static
        "\<lambda>i. if i = 1 \<or> i = 3 then Some (- 32768) else None"]
    by simp
qed

section \<open>Telemetry snapshots\<close>

lemma telemetry_first_cycle:
  "telemetryWriterWorker True shared0 now0 [(crsf, now, file_ok)] =
     [snd (telemetry_cycle crsf now file_ok \<lparr>shared = shared0, lastUpdate = now0\<rparr>)]"
  by (simp add: telemetryWriterWorker_def split: prod.splits)




end
